theory Spec2Isabelle
  imports Main
begin

unbundle bit_operations_syntax

section \<open>Go values used by the IMAP command core\<close>

text \<open>
  The commands of \<^verbatim>\<open>command.go\<close> and the session of \<^verbatim>\<open>session.go\<close> (the string-path
  version, \<^verbatim>\<open>src/unnamed/part_000\<close>) are embedded as HOL functions. A Go run-time panic
  (an index or slice expression out of range, a nil dereference) is the value
  \<open>Panicked\<close>: the goroutine does not return. A Go \<^verbatim>\<open>error\<close> is its message text.
  Writes to the process log (\<^verbatim>\<open>session.log\<close>, \<^verbatim>\<open>log.Print\<close>) are not part of the model.
\<close>

datatype 'a outcome = Panicked | Returned 'a

datatype error = GoError (Error: string)

text \<open>\<^verbatim>\<open>s[i]\<close> on a Go string: a byte, or a panic when \<open>i\<close> is out of range.\<close>

definition go_index :: "string \<Rightarrow> int \<Rightarrow> char outcome" where
  "go_index s i =
     (if 0 \<le> i \<and> i < int (length s) then Returned (s ! nat i) else Panicked)"

text \<open>\<^verbatim>\<open>s[lo:hi]\<close> on a Go string: panics unless \<open>0 \<le> lo \<le> hi \<le> len(s)\<close>.\<close>

definition go_slice :: "string \<Rightarrow> int \<Rightarrow> int \<Rightarrow> string outcome" where
  "go_slice s lo hi =
     (if 0 \<le> lo \<and> lo \<le> hi \<and> hi \<le> int (length s)
      then Returned (take (nat (hi - lo)) (drop (nat lo) s))
      else Panicked)"

text \<open>
  \<^verbatim>\<open>strings.LastIndex(s, string(c))\<close> for a one-byte separator: the index of the last
  occurrence of \<open>c\<close> in \<open>s\<close>, or \<open>-1\<close>.
\<close>

fun strings_LastIndex :: "string \<Rightarrow> char \<Rightarrow> int" where
  "strings_LastIndex [] c = - 1"
| "strings_LastIndex (x # xs) c =
     (let r = strings_LastIndex xs c
      in if 0 \<le> r then r + 1 else if x = c then 0 else - 1)"

text \<open>\<^verbatim>\<open>strings.Join(elems, sep)\<close>.\<close>

fun strings_Join :: "string list \<Rightarrow> string \<Rightarrow> string" where
  "strings_Join [] sep = []"
| "strings_Join [x] sep = x"
| "strings_Join (x # y # ys) sep = x @ sep @ strings_Join (y # ys) sep"

text \<open>Decimal text of an integer, as the verb \<^verbatim>\<open>%d\<close> and \<^verbatim>\<open>fmt.Sprint\<close> print it.\<close>

fun decimal :: "nat \<Rightarrow> string" where
  "decimal n =
     (if n < 10 then [''0123456789'' ! n]
      else decimal (n div 10) @ [''0123456789'' ! (n mod 10)])"

declare decimal.simps [simp del]

definition itoa :: "int \<Rightarrow> string" where
  "itoa i = (if i < 0 then CHR ''-'' # decimal (nat (- i)) else decimal (nat i))"

text \<open>
  The path delimiter is the untyped rune constant \<^verbatim>\<open>'/'\<close>. Handed to \<^verbatim>\<open>fmt.Sprintf\<close> it
  has the default type \<^verbatim>\<open>rune\<close> (\<^verbatim>\<open>int32\<close>), and the verb \<^verbatim>\<open>%s\<close> is not defined for an
  integer: \<^verbatim>\<open>fmt\<close> prints the bad-verb form \<^verbatim>\<open>%!s(int32=47)\<close>.
\<close>

definition pathDelimiter :: char where
  "pathDelimiter = CHR ''/''"

definition sprintf_s_rune :: "char \<Rightarrow> string" where
  "sprintf_s_rune c = ''%!s(int32='' @ itoa (of_char c) @ '')''"

definition dquote :: char where
  "dquote = CHR 0x22"

section \<open>Data model\<close>

datatype state = notAuthenticated | authenticated | selected

text \<open>
  Modelled from the spec: the \<^verbatim>\<open>Mailbox\<close> struct is not among the sources. The code reads
  its fields \<^verbatim>\<open>Name\<close>, \<^verbatim>\<open>Path\<close>, \<^verbatim>\<open>Id\<close> (here \<open>Id_Mailbox\<close>) and \<^verbatim>\<open>Flags\<close>; the spec gives a
  numeric id, a leaf name, a full path and a flag bitmask.
\<close>

record Mailbox =
  Name :: string
  Path :: string
  Id_Mailbox :: int
  Flags :: nat

text \<open>
  Modelled from the spec: the \<^verbatim>\<open>Mailstore\<close> interface is not among the sources. Each
  method returns a value or an error; \<^verbatim>\<open>GetMailbox\<close> may also report the mailbox absent
  (a nil mailbox and a nil error). An answer is a function of the query.
\<close>

record Mailstore =
  GetMailbox :: "string \<Rightarrow> error + Mailbox option"
  GetMailboxes :: "string \<Rightarrow> error + Mailbox list"
  FirstUnseen :: "int \<Rightarrow> error + int"
  TotalMessages :: "int \<Rightarrow> error + int"
  RecentMessages :: "int \<Rightarrow> error + int"
  NextUid :: "int \<Rightarrow> error + int"

text \<open>
  Modelled from the spec: the \<^verbatim>\<open>Config\<close> struct is not among the sources. The code reads its
  field \<^verbatim>\<open>Mailstore\<close>; the spec has the configuration carry the Mailstore capability.
\<close>

record Config =
  Mailstore :: Mailstore

record session =
  id_session :: int
  st :: state
  mailbox :: "Mailbox option"
  config :: Config

text \<open>The calls made to the Mailstore, in the order they are issued.\<close>

datatype query =
    QGetMailbox string
  | QGetMailboxes string
  | QFirstUnseen int
  | QTotalMessages int
  | QRecentMessages int
  | QNextUid int

text \<open>
  Package \<^verbatim>\<open>regexp\<close> of the Go library and the table \<^verbatim>\<open>mailboxFlags\<close> (a Go map that is
  not among the sources) are parameters of the model: \<open>regexp_Compile\<close> and
  \<open>regexp_MatchString\<close> stand for \<^verbatim>\<open>regexp.Compile\<close> and \<^verbatim>\<open>(*Regexp).MatchString\<close>, and
  \<open>mailboxFlags E k\<close> lists the table's entries in the order in which the \<^verbatim>\<open>range\<close> loop of the
  \<open>k\<close>-th call of \<^verbatim>\<open>joinMailboxFlags\<close> within a command visits them. Go leaves the iteration
  order of a map unspecified, so the order may differ from call to call.
\<close>

record 're env =
  regexp_Compile :: "string \<Rightarrow> error + 're"
  regexp_MatchString :: "'re \<Rightarrow> string \<Rightarrow> bool"
  mailboxFlags :: "nat \<Rightarrow> (nat \<times> string) list"

section \<open>Responses\<close>

text \<open>
  Modelled from the spec: the response type and its constructors \<^verbatim>\<open>ok\<close>, \<^verbatim>\<open>no\<close>, \<^verbatim>\<open>bad\<close>,
  \<^verbatim>\<open>extra\<close> and \<^verbatim>\<open>shouldClose\<close> are not among the sources. A response has the echoed
  tag, a status, a completion message, the untagged lines in the order they were
  appended, and the close-after-send flag.
\<close>

datatype status = OK | NO | BAD

record response =
  tag :: string
  status :: status
  message :: string
  untagged :: "string list"
  closeConnection :: bool

definition ok :: "string \<Rightarrow> string \<Rightarrow> response" where
  "ok t m = \<lparr>tag = t, status = OK, message = m, untagged = [], closeConnection = False\<rparr>"

definition no :: "string \<Rightarrow> string \<Rightarrow> response" where
  "no t m = \<lparr>tag = t, status = NO, message = m, untagged = [], closeConnection = False\<rparr>"

definition bad :: "string \<Rightarrow> string \<Rightarrow> response" where
  "bad t m = \<lparr>tag = t, status = BAD, message = m, untagged = [], closeConnection = False\<rparr>"

definition extra :: "response \<Rightarrow> string \<Rightarrow> response" where
  "extra r line = r\<lparr>untagged := untagged r @ [line]\<rparr>"

definition shouldClose :: "response \<Rightarrow> response" where
  "shouldClose r = r\<lparr>closeConnection := True\<rparr>"

section \<open>Helper functions of command.go\<close>

definition internalError :: "string \<Rightarrow> string \<Rightarrow> error \<Rightarrow> response" where
  "internalError t commandName err = shouldClose (no t (commandName @ '' '' @ Error err))"

definition mustAuthenticate :: "string \<Rightarrow> string \<Rightarrow> response" where
  "mustAuthenticate t commandName = bad t (commandName @ '' not authenticated'')"

definition addTrailingDelimiter :: "string \<Rightarrow> string outcome" where
  "addTrailingDelimiter s =
     (case go_index s (int (length s) - 1) of
        Panicked \<Rightarrow> Panicked
      | Returned c \<Rightarrow> if c \<noteq> pathDelimiter then Returned (s @ [pathDelimiter]) else Returned s)"

definition removeDelimiters :: "string \<Rightarrow> string outcome" where
  "removeDelimiters s =
     (case go_index s 0 of
        Panicked \<Rightarrow> Panicked
      | Returned c0 \<Rightarrow>
          let start = (if c0 = pathDelimiter then 1 else 0 :: int)
          in (case go_index s (int (length s) - 1) of
                Panicked \<Rightarrow> Panicked
              | Returned c1 \<Rightarrow>
                  let end = (if c1 = pathDelimiter then int (length s) - 1 else int (length s))
                  in if 0 < end - start then go_slice s start end else Returned []))"

definition joinMailboxFlags :: "'re env \<Rightarrow> nat \<Rightarrow> Mailbox \<Rightarrow> string" where
  "joinMailboxFlags E k m =
     strings_Join
       (map snd (filter (\<lambda>(flag, str). Flags m AND flag \<noteq> 0) (mailboxFlags E k))) '',''"

section \<open>The session (session.go)\<close>

text \<open>
  \<^verbatim>\<open>session.selectMailbox\<close>: one \<^verbatim>\<open>GetMailbox\<close> query; the session is changed only when the
  mailbox is found.
\<close>

definition session_selectMailbox ::
  "session \<Rightarrow> string \<Rightarrow> query list \<times> session \<times> (error + bool)" where
  "session_selectMailbox s name =
     (case GetMailbox (Mailstore (config s)) name of
        Inl err \<Rightarrow> ([QGetMailbox name], s, Inl err)
      | Inr None \<Rightarrow> ([QGetMailbox name], s, Inr False)
      | Inr (Some mbox) \<Rightarrow> ([QGetMailbox name], s\<lparr>mailbox := Some mbox\<rparr>, Inr True))"

text \<open>
  \<^verbatim>\<open>session.addMailboxInfo\<close>: four counter queries with an early return at the first
  error, then five untagged lines. \<open>Inl\<close> is the returned error (the response is then
  untouched), \<open>Inr\<close> the response after the five calls of \<^verbatim>\<open>extra\<close>. Reading
  \<^verbatim>\<open>s.mailbox.Id\<close> with no mailbox selected is a nil dereference.
\<close>

definition addMailboxInfo ::
  "session \<Rightarrow> response \<Rightarrow> query list \<times> (error + response) outcome" where
  "addMailboxInfo s resp =
     (case mailbox s of
        None \<Rightarrow> ([], Panicked)
      | Some mb \<Rightarrow>
          let mailstore = Mailstore (config s); i = Id_Mailbox mb
          in (case FirstUnseen mailstore i of
                Inl err \<Rightarrow> ([QFirstUnseen i], Returned (Inl err))
              | Inr firstUnseen \<Rightarrow>
            (case TotalMessages mailstore i of
                Inl err \<Rightarrow> ([QFirstUnseen i, QTotalMessages i], Returned (Inl err))
              | Inr totalMessages \<Rightarrow>
            (case RecentMessages mailstore i of
                Inl err \<Rightarrow>
                  ([QFirstUnseen i, QTotalMessages i, QRecentMessages i], Returned (Inl err))
              | Inr recentMessages \<Rightarrow>
            (case NextUid mailstore i of
                Inl err \<Rightarrow>
                  ([QFirstUnseen i, QTotalMessages i, QRecentMessages i, QNextUid i],
                   Returned (Inl err))
              | Inr nextUid \<Rightarrow>
                  ([QFirstUnseen i, QTotalMessages i, QRecentMessages i, QNextUid i],
                   Returned (Inr
                     (extra (extra (extra (extra (extra resp
                        (itoa totalMessages @ '' EXISTS''))
                        (itoa recentMessages @ '' RECENT''))
                        (''OK [UNSEEN '' @ itoa firstUnseen @ ''] Message '' @ itoa firstUnseen
                           @ '' is first unseen''))
                        (''OK [UIDVALIDITY '' @ itoa i @ ''] UIDs valid''))
                        (''OK [UIDNEXT '' @ itoa nextUid @ ''] Predicted next UID'')))))))))"

text \<open>
  \<^verbatim>\<open>session.listMailboxes\<close>. The namespace of the Mailstore may be cyclic, so the recursion
  carries fuel: one unit per nested call, \<open>None\<close> when it runs out. The loop over
  \<^verbatim>\<open>current\<close> is \<open>listMailboxes_loop\<close>, with the slice \<^verbatim>\<open>ret\<close> as its accumulator. Both
  return the queries they issued, in order.
\<close>

fun listMailboxes ::
    "nat \<Rightarrow> 're env \<Rightarrow> session \<Rightarrow> string \<Rightarrow> 're option \<Rightarrow> bool
      \<Rightarrow> (query list \<times> (error + Mailbox list) outcome) option"
  and listMailboxes_loop ::
    "nat \<Rightarrow> 're env \<Rightarrow> session \<Rightarrow> string \<Rightarrow> 're option \<Rightarrow> bool \<Rightarrow> Mailbox list \<Rightarrow> Mailbox list
      \<Rightarrow> (query list \<times> (error + Mailbox list) outcome) option"
where
  "listMailboxes 0 E s path mboxRe recursive = None"
| "listMailboxes (Suc fuel) E s path mboxRe recursive =
     (case GetMailboxes (Mailstore (config s)) path of
        Inl err \<Rightarrow> Some ([QGetMailboxes path], Returned (Inl err))
      | Inr current \<Rightarrow>
          (case listMailboxes_loop fuel E s path mboxRe recursive current [] of
             None \<Rightarrow> None
           | Some (qs, r) \<Rightarrow> Some (QGetMailboxes path # qs, r)))"
| "listMailboxes_loop fuel E s path mboxRe recursive [] ret = Some ([], Returned (Inr ret))"
| "listMailboxes_loop fuel E s path mboxRe recursive (mbox # rest) ret =
     (if (case mboxRe of None \<Rightarrow> False
          | Some re \<Rightarrow> \<not> regexp_MatchString E re (Name mbox))
      then listMailboxes_loop fuel E s path mboxRe recursive rest ret
      else if recursive
      then (case go_index path (int (length path) - 1) of
              Panicked \<Rightarrow> Some ([], Panicked)
            | Returned c \<Rightarrow>
                (case listMailboxes fuel E s
                        (if c = pathDelimiter then path @ Name mbox
                         else path @ ''/'' @ Name mbox)
                        None True of
                   None \<Rightarrow> None
                 | Some (qs, Panicked) \<Rightarrow> Some (qs, Panicked)
                 | Some (qs, Returned (Inl err)) \<Rightarrow> Some (qs, Returned (Inl err))
                 | Some (qs, Returned (Inr next)) \<Rightarrow>
                     (case listMailboxes_loop fuel E s path mboxRe recursive rest
                             ((ret @ [mbox]) @ next) of
                        None \<Rightarrow> None
                      | Some (qs', r) \<Rightarrow> Some (qs @ qs', r))))
      else listMailboxes_loop fuel E s path mboxRe recursive rest (ret @ [mbox]))"

text \<open>
  \<^verbatim>\<open>session.list\<close>, first part (lines 69 to 113): the recursion flag, the search path and
  the text of the filter expression (\<open>None\<close> when no filter is built).
\<close>

definition list_plan :: "string \<Rightarrow> string \<Rightarrow> (string \<times> string option \<times> bool) outcome" where
  "list_plan reference mboxPattern =
     (let lastIndex = int (length mboxPattern) - 1
      in (case go_index mboxPattern lastIndex of
            Panicked \<Rightarrow> Panicked
          | Returned c \<Rightarrow>
              let recursive = (c = CHR ''*'')
              in if c = CHR ''*'' \<or> c = CHR ''%''
                 then
                   let lastDelimiter = strings_LastIndex mboxPattern pathDelimiter
                   in (case (if 0 < lastDelimiter then go_slice mboxPattern 0 lastDelimiter
                             else Returned [])
                       of Panicked \<Rightarrow> Panicked
                        | Returned mboxPathPart \<Rightarrow>
                            (case (if length mboxPattern = 1 then Returned ''.*''
                                   else if 0 < lastDelimiter
                                   then map_outcome (\<lambda>x. x @ ''.*'')
                                          (go_slice mboxPattern lastDelimiter (lastIndex - 1))
                                   else map_outcome (\<lambda>x. x @ ''.*'')
                                          (go_slice mboxPattern 0 (lastIndex - 1)))
                             of Panicked \<Rightarrow> Panicked
                              | Returned expr \<Rightarrow>
                                  Returned (reference @ mboxPathPart, Some expr, recursive)))
                 else Returned (reference @ mboxPattern, None, recursive)))"

text \<open>
  \<^verbatim>\<open>session.list\<close>, second part (lines 103 to 116): compile the expression, if any, and
  look the mailboxes up.
\<close>

definition session_list ::
  "nat \<Rightarrow> 're env \<Rightarrow> session \<Rightarrow> string \<Rightarrow> string
    \<Rightarrow> (query list \<times> (error + Mailbox list) outcome) option" where
  "session_list fuel E s reference mboxPattern =
     (case list_plan reference mboxPattern of
        Panicked \<Rightarrow> Some ([], Panicked)
      | Returned (path, None, recursive) \<Rightarrow> listMailboxes fuel E s path None recursive
      | Returned (path, Some expr, recursive) \<Rightarrow>
          (case regexp_Compile E expr of
             Inl err \<Rightarrow> Some ([], Returned (Inl err))
           | Inr re \<Rightarrow> listMailboxes fuel E s path (Some re) recursive))"

section \<open>The commands (command.go)\<close>

datatype command =
    Noop string
  | Capability string
  | Login string string string
  | Logout string
  | SelectMailbox string string
  | List_cmd string string string
  | Unknown string string

text \<open>
  Each \<^verbatim>\<open>execute\<close> method takes the session and the fields of its command, and returns the
  session as the method leaves it together with the response.
\<close>

definition noop_execute :: "session \<Rightarrow> string \<Rightarrow> session \<times> response" where
  "noop_execute s t = (s, ok t ''NOOP Completed'')"

definition capability_execute :: "session \<Rightarrow> string \<Rightarrow> session \<times> response" where
  "capability_execute s t = (s, extra (ok t ''CAPABILITY completed'') ''CAPABILITY IMAP4rev1'')"

definition login_execute :: "session \<Rightarrow> string \<Rightarrow> string \<Rightarrow> string \<Rightarrow> session \<times> response" where
  "login_execute sess t userId password =
     (if st sess \<noteq> notAuthenticated then (sess, bad t ''LOGIN already logged in'')
      else if userId = ''test'' then (sess\<lparr>st := authenticated\<rparr>, ok t ''LOGIN completed'')
      else (sess, no t ''LOGIN failure''))"

definition logout_execute :: "session \<Rightarrow> string \<Rightarrow> session \<times> response" where
  "logout_execute sess t =
     (sess\<lparr>st := notAuthenticated\<rparr>,
      shouldClose (extra (ok t ''LOGOUT completed'') ''BYE IMAP4rev1 Server logging out''))"

definition selectMailbox_execute ::
  "session \<Rightarrow> string \<Rightarrow> string \<Rightarrow> query list \<times> (session \<times> response) outcome" where
  "selectMailbox_execute sess t name =
     (if st sess \<noteq> authenticated then ([], Returned (sess, mustAuthenticate t ''SELECT''))
      else (case session_selectMailbox sess name of
              (qs, sess', Inl err) \<Rightarrow> (qs, Returned (sess', internalError t ''SELECT'' err))
            | (qs, sess', Inr exists) \<Rightarrow>
                if \<not> exists then (qs, Returned (sess', no t ''SELECT No such mailbox''))
                else (case addMailboxInfo sess' (ok t ''SELECT completed'') of
                        (qs', Panicked) \<Rightarrow> (qs @ qs', Panicked)
                      | (qs', Returned (Inl err)) \<Rightarrow>
                          (qs @ qs', Returned (sess', internalError t ''SELECT'' err))
                      | (qs', Returned (Inr res)) \<Rightarrow> (qs @ qs', Returned (sess', res)))))"

text \<open>
  The untagged line of the \<open>k\<close>-th listed mailbox, and the line of the empty pattern. The method
  also overwrites the \<^verbatim>\<open>reference\<close> and \<^verbatim>\<open>mboxPattern\<close> fields of its command with their
  normalised forms; the command is not read again, and the model does not return it.
\<close>

definition list_line :: "'re env \<Rightarrow> nat \<Rightarrow> Mailbox \<Rightarrow> string" where
  "list_line E k mbox =
     ''LIST ('' @ joinMailboxFlags E k mbox @ '') '' @ [dquote] @ sprintf_s_rune pathDelimiter
       @ [dquote] @ '' '' @ Path mbox"

definition list_root_line :: "string \<Rightarrow> string" where
  "list_root_line reference =
     ''LIST () '' @ [dquote] @ sprintf_s_rune pathDelimiter @ [dquote] @ '' '' @ reference"

definition list_execute ::
  "nat \<Rightarrow> 're env \<Rightarrow> session \<Rightarrow> string \<Rightarrow> string \<Rightarrow> string
    \<Rightarrow> (query list \<times> (session \<times> response) outcome) option" where
  "list_execute fuel E sess t reference mboxPattern =
     (if st sess \<noteq> authenticated then Some ([], Returned (sess, mustAuthenticate t ''LIST''))
      else if mboxPattern = []
      then Some ([], Returned (sess, extra (ok t ''LIST completed'') (list_root_line reference)))
      else (case addTrailingDelimiter reference of
              Panicked \<Rightarrow> Some ([], Panicked)
            | Returned reference' \<Rightarrow>
                (case removeDelimiters mboxPattern of
                   Panicked \<Rightarrow> Some ([], Panicked)
                 | Returned mboxPattern' \<Rightarrow>
                     (case session_list fuel E sess reference' mboxPattern' of
                        None \<Rightarrow> None
                      | Some (qs, Panicked) \<Rightarrow> Some (qs, Panicked)
                      | Some (qs, Returned (Inl err)) \<Rightarrow>
                          Some (qs, Returned (sess, internalError t ''LIST'' err))
                      | Some (qs, Returned (Inr mboxes)) \<Rightarrow>
                          if length mboxes = 0
                          then Some (qs, Returned (sess, no t ''LIST no results''))
                          else Some (qs, Returned (sess,
                                 foldl (\<lambda>res (k, mbox). extra res (list_line E k mbox))
                                   (ok t ''LIST completed'')
                                   (zip [0..<length mboxes] mboxes)))))))"

definition unknown_execute :: "session \<Rightarrow> string \<Rightarrow> string \<Rightarrow> session \<times> response" where
  "unknown_execute s t cmd = (s, bad t (cmd @ '' unknown command''))"

text \<open>The \<^verbatim>\<open>command\<close> interface: \<^verbatim>\<open>execute\<close> dispatched on the variant.\<close>

fun execute ::
  "nat \<Rightarrow> 're env \<Rightarrow> session \<Rightarrow> command
    \<Rightarrow> (query list \<times> (session \<times> response) outcome) option" where
  "execute fuel E s (Noop t) = Some ([], Returned (noop_execute s t))"
| "execute fuel E s (Capability t) = Some ([], Returned (capability_execute s t))"
| "execute fuel E s (Login t userId password) =
     Some ([], Returned (login_execute s t userId password))"
| "execute fuel E s (Logout t) = Some ([], Returned (logout_execute s t))"
| "execute fuel E s (SelectMailbox t name) = Some (selectMailbox_execute s t name)"
| "execute fuel E s (List_cmd t reference mboxPattern) =
     list_execute fuel E s t reference mboxPattern"
| "execute fuel E s (Unknown t cmd) = Some ([], Returned (unknown_execute s t cmd))"

section \<open>Creating a session (session.go)\<close>

text \<open>\<^verbatim>\<open>createSession\<close>: a new session is not authenticated and has no mailbox selected.\<close>

definition createSession :: "int \<Rightarrow> Config \<Rightarrow> session" where
  "createSession i c = \<lparr>id_session = i, st = notAuthenticated, mailbox = None, config = c\<rparr>"

section \<open>Notions used to state the properties\<close>

text \<open>
  A child is kept by the loop of \<^verbatim>\<open>listMailboxes\<close> when there is no filter, or the filter
  matches its leaf name (the negation of the loop's \<^verbatim>\<open>continue\<close> test).
\<close>

definition kept :: "'re env \<Rightarrow> 're option \<Rightarrow> Mailbox \<Rightarrow> bool" where
  "kept E mboxRe mbox =
     (case mboxRe of None \<Rightarrow> True | Some re \<Rightarrow> regexp_MatchString E re (Name mbox))"

text \<open>The path of a child, as the recursive branch of the loop builds it.\<close>

definition nextPath :: "string \<Rightarrow> string \<Rightarrow> string" where
  "nextPath path name =
     (if last path = pathDelimiter then path @ name else path @ ''/'' @ name)"

text \<open>The leaf pattern: the text after the last delimiter of the pattern.\<close>

definition leaf_pattern :: "string \<Rightarrow> string" where
  "leaf_pattern p = rev (takeWhile (\<lambda>c. c \<noteq> pathDelimiter) (rev p))"

text \<open>
  A finite mailbox hierarchy, its pre-order listing (a mailbox, then the listing of each
  of its children in turn) and its height. \<open>stores ms path t\<close> says that the Mailstore
  answers the queries below \<open>path\<close> with the tree \<open>t\<close>: the children of the root of \<open>t\<close>
  are what \<^verbatim>\<open>GetMailboxes\<close> returns at the root's path, and so on downwards.
\<close>

datatype mtree = MNode (root: Mailbox) (children: "mtree list")

fun preorder :: "mtree \<Rightarrow> Mailbox list" where
  "preorder (MNode m ts) = m # concat (map preorder ts)"

fun height :: "mtree \<Rightarrow> nat" where
  "height (MNode m ts) = Suc (foldr max (map height ts) 0)"

fun stores :: "Mailstore \<Rightarrow> string \<Rightarrow> mtree \<Rightarrow> bool" where
  "stores ms path (MNode m ts) =
     (GetMailboxes ms (nextPath path (Name m)) = Inr (map root ts)
      \<and> (\<forall>t\<in>set ts. stores ms (nextPath path (Name m)) t))"

text \<open>The error a query is answered with, if any.\<close>

definition failed_query :: "Mailstore \<Rightarrow> query \<Rightarrow> error option" where
  "failed_query ms q =
     (case q of
        QGetMailbox name \<Rightarrow> (case GetMailbox ms name of Inl e \<Rightarrow> Some e | Inr v \<Rightarrow> None)
      | QGetMailboxes path \<Rightarrow> (case GetMailboxes ms path of Inl e \<Rightarrow> Some e | Inr v \<Rightarrow> None)
      | QFirstUnseen i \<Rightarrow> (case FirstUnseen ms i of Inl e \<Rightarrow> Some e | Inr v \<Rightarrow> None)
      | QTotalMessages i \<Rightarrow> (case TotalMessages ms i of Inl e \<Rightarrow> Some e | Inr v \<Rightarrow> None)
      | QRecentMessages i \<Rightarrow> (case RecentMessages ms i of Inl e \<Rightarrow> Some e | Inr v \<Rightarrow> None)
      | QNextUid i \<Rightarrow> (case NextUid ms i of Inl e \<Rightarrow> Some e | Inr v \<Rightarrow> None))"

text \<open>
  A run stops at its first storage error: either no query of the run failed, or the
  last one did, none before it did, and the run returned that error.
\<close>

definition stops_at_error :: "Mailstore \<Rightarrow> query list \<Rightarrow> (error + 'a) outcome \<Rightarrow> bool" where
  "stops_at_error ms qs r =
     ((\<forall>q\<in>set qs. failed_query ms q = None)
      \<or> (\<exists>err. qs \<noteq> [] \<and> failed_query ms (last qs) = Some err
            \<and> (\<forall>q\<in>set (butlast qs). failed_query ms q = None)
            \<and> r = Returned (Inl err)))"






section \<open>A concrete Mailstore and regexp instance\<close>

text \<open>
  For the concrete runs below, package \<^verbatim>\<open>regexp\<close> is instantiated on the expressions of
  the shape \<^verbatim>\<open>L.*\<close> with \<open>L\<close> free of metacharacters. \<^verbatim>\<open>MatchString\<close> is an unanchored
  search, so such an expression matches exactly the names that contain \<open>L\<close>; the compiled
  expression is represented by \<open>L\<close>. Other expressions are outside this instance, which
  answers them with an error; no run below compiles one.
\<close>

fun contains :: "string \<Rightarrow> string \<Rightarrow> bool" where
  "contains [] lit = (lit = [])"
| "contains (x # xs) lit = (take (length lit) (x # xs) = lit \<or> contains xs lit)"

definition regexp_meta :: "char set" where
  "regexp_meta = set (CHR 0x5C # ''.+*?()|[]{}^$'')"

definition literal_Compile :: "string \<Rightarrow> error + string" where
  "literal_Compile expr =
     (if 2 \<le> length expr \<and> drop (length expr - 2) expr = ''.*''
         \<and> set (take (length expr - 2) expr) \<inter> regexp_meta = {}
      then Inr (take (length expr - 2) expr)
      else Inl (GoError ''expression outside the modelled fragment''))"

definition demo_env :: "string env" where
  "demo_env = \<lparr>regexp_Compile = literal_Compile,
                regexp_MatchString = (\<lambda>lit name. contains name lit),
                mailboxFlags = (\<lambda>k. [])\<rparr>"

text \<open>
  A small namespace: \<^verbatim>\<open>INBOX\<close> and \<^verbatim>\<open>Work\<close> at the top, \<^verbatim>\<open>bills\<close> and \<^verbatim>\<open>travel\<close> below \<^verbatim>\<open>Work\<close>.
  \<open>faulty_store\<close> is the same store with a failing disk under \<^verbatim>\<open>/Work/travel\<close> and a
  failing message count.
\<close>

definition demo_inbox :: Mailbox where
  "demo_inbox = \<lparr>Name = ''INBOX'', Path = ''/INBOX'', Id_Mailbox = 1, Flags = 0\<rparr>"

definition demo_work :: Mailbox where
  "demo_work = \<lparr>Name = ''Work'', Path = ''/Work'', Id_Mailbox = 2, Flags = 0\<rparr>"

definition demo_bills :: Mailbox where
  "demo_bills = \<lparr>Name = ''bills'', Path = ''/Work/bills'', Id_Mailbox = 3, Flags = 0\<rparr>"

definition demo_travel :: Mailbox where
  "demo_travel = \<lparr>Name = ''travel'', Path = ''/Work/travel'', Id_Mailbox = 4, Flags = 0\<rparr>"

definition demo_store :: Mailstore where
  "demo_store =
     \<lparr>GetMailbox = (\<lambda>name.
        if name = ''INBOX'' then Inr (Some demo_inbox)
        else if name = ''Work'' then Inr (Some demo_work)
        else Inr None),
      GetMailboxes = (\<lambda>path.
        if path = ''/'' then Inr [demo_inbox, demo_work]
        else if path = ''/Work'' then Inr [demo_bills, demo_travel]
        else Inr []),
      FirstUnseen = (\<lambda>i. Inr 7),
      TotalMessages = (\<lambda>i. Inr 12),
      RecentMessages = (\<lambda>i. Inr 3),
      NextUid = (\<lambda>i. Inr 40)\<rparr>"

definition faulty_store :: Mailstore where
  "faulty_store =
     demo_store
       \<lparr>GetMailboxes := (\<lambda>path.
          if path = ''/Work/travel'' then Inl (GoError ''disk failure'')
          else GetMailboxes demo_store path),
        TotalMessages := (\<lambda>i. Inl (GoError ''disk failure''))\<rparr>"

definition demo_session :: session where
  "demo_session = createSession 1 \<lparr>Mailstore = demo_store\<rparr>"

definition demo_authenticated :: session where
  "demo_authenticated = demo_session\<lparr>st := authenticated\<rparr>"

definition faulty_authenticated :: session where
  "faulty_authenticated = (createSession 2 \<lparr>Mailstore = faulty_store\<rparr>)\<lparr>st := authenticated\<rparr>"

definition demo_forest :: "mtree list" where
  "demo_forest =
     [MNode demo_inbox [], MNode demo_work [MNode demo_bills [], MNode demo_travel []]]"


section \<open>The loop of listMailboxes\<close>

lemma kept_cond:
  "(case mboxRe of None \<Rightarrow> False | Some re \<Rightarrow> \<not> regexp_MatchString E re (Name mbox))
     = (\<not> kept E mboxRe mbox)"
  by (simp add: kept_def split: option.splits)

lemma go_index_last:
  "s \<noteq> [] \<Longrightarrow> go_index s (int (length s) - 1) = Returned (last s)"
  by (cases s rule: rev_cases) (simp_all add: go_index_def nat_diff_distrib')

lemma loop_step_skip:
  "\<not> kept E mboxRe mbox \<Longrightarrow>
   listMailboxes_loop fuel E s path mboxRe recursive (mbox # rest) ret =
     listMailboxes_loop fuel E s path mboxRe recursive rest ret"
  by (simp add: kept_cond)

lemma loop_step_flat:
  "kept E mboxRe mbox \<Longrightarrow>
   listMailboxes_loop fuel E s path mboxRe False (mbox # rest) ret =
     listMailboxes_loop fuel E s path mboxRe False rest (ret @ [mbox])"
  by (simp add: kept_cond)

lemma loop_step_rec:
  "kept E mboxRe mbox \<Longrightarrow> path \<noteq> [] \<Longrightarrow>
   listMailboxes_loop fuel E s path mboxRe True (mbox # rest) ret =
     (case listMailboxes fuel E s (nextPath path (Name mbox)) None True of
        None \<Rightarrow> None
      | Some (qs, Panicked) \<Rightarrow> Some (qs, Panicked)
      | Some (qs, Returned (Inl err)) \<Rightarrow> Some (qs, Returned (Inl err))
      | Some (qs, Returned (Inr next)) \<Rightarrow>
          (case listMailboxes_loop fuel E s path mboxRe True rest ((ret @ [mbox]) @ next) of
             None \<Rightarrow> None
           | Some (qs', r) \<Rightarrow> Some (qs @ qs', r)))"
  by (simp add: kept_cond go_index_last nextPath_def)

lemmas loop_Cons = listMailboxes_loop.simps(2)

declare listMailboxes_loop.simps(2) [simp del]

lemma loop_flat:
  "listMailboxes_loop fuel E s path mboxRe False current ret =
     Some ([], Returned (Inr (ret @ filter (kept E mboxRe) current)))"
proof (induction current arbitrary: ret)
  case Nil
  show ?case by simp
next
  case (Cons mbox rest)
  show ?case
  proof (cases "kept E mboxRe mbox")
    case True
    then show ?thesis by (simp add: loop_step_flat Cons.IH)
  next
    case False
    then show ?thesis by (simp add: loop_step_skip Cons.IH)
  qed
qed

lemma listMailboxes_flat:
  "listMailboxes (Suc fuel) E s path mboxRe False =
     Some ([QGetMailboxes path],
       Returned (map_sum id (filter (kept E mboxRe)) (GetMailboxes (Mailstore (config s)) path)))"
  by (simp add: loop_flat split: sum.splits)

lemma preorder_unfold: "preorder t = root t # concat (map preorder (children t))"
  by (cases t) simp

lemma loop_rec:
  assumes "path \<noteq> []"
    and "\<forall>t\<in>set ts. kept E mboxRe (root t) \<longrightarrow>
          (\<exists>qs. listMailboxes fuel E s (nextPath path (Name (root t))) None True =
             Some (qs, Returned (Inr (concat (map preorder (children t))))))"
  shows "\<exists>qs. listMailboxes_loop fuel E s path mboxRe True (map root ts) ret =
           Some (qs, Returned (Inr (ret @
             concat (map preorder (filter (\<lambda>t. kept E mboxRe (root t)) ts)))))"
  using assms(2)
proof (induction ts arbitrary: ret)
  case Nil
  show ?case by simp
next
  case (Cons t ts)
  show ?case
  proof (cases "kept E mboxRe (root t)")
    case False
    with Cons.IH [of ret] Cons.prems show ?thesis
      by (simp add: loop_step_skip)
  next
    case True
    with Cons.prems obtain qs where
      sub: "listMailboxes fuel E s (nextPath path (Name (root t))) None True =
              Some (qs, Returned (Inr (concat (map preorder (children t)))))"
      by auto
    from Cons.prems have
      "\<forall>t\<in>set ts. kept E mboxRe (root t) \<longrightarrow>
          (\<exists>qs. listMailboxes fuel E s (nextPath path (Name (root t))) None True =
             Some (qs, Returned (Inr (concat (map preorder (children t))))))"
      by simp
    from Cons.IH [OF this, of "(ret @ [root t]) @ concat (map preorder (children t))"]
    obtain qs' where
      rest: "listMailboxes_loop fuel E s path mboxRe True (map root ts)
               ((ret @ [root t]) @ concat (map preorder (children t))) =
             Some (qs', Returned (Inr (((ret @ [root t]) @ concat (map preorder (children t))) @
               concat (map preorder (filter (\<lambda>t. kept E mboxRe (root t)) ts)))))"
      by blast
    have "listMailboxes_loop fuel E s path mboxRe True (map root (t # ts)) ret =
            Some (qs @ qs', Returned (Inr (((ret @ [root t]) @ concat (map preorder (children t))) @
               concat (map preorder (filter (\<lambda>t. kept E mboxRe (root t)) ts)))))"
      using True assms(1) rest by (simp add: loop_step_rec sub)
    moreover have "preorder t = root t # concat (map preorder (children t))"
      by (rule preorder_unfold)
    ultimately show ?thesis using True by simp
  qed
qed

lemma height_member: "t \<in> set ts \<Longrightarrow> height t \<le> foldr max (map height ts) 0"
  by (induction ts) auto

lemma nextPath_nonempty: "path \<noteq> [] \<Longrightarrow> nextPath path name \<noteq> []"
  by (simp add: nextPath_def)

lemma filter_kept_None: "filter (\<lambda>t. kept E None (root t)) ts = ts"
  by (simp add: kept_def)

lemma listMailboxes_preorder:
  assumes "path \<noteq> []"
    and "GetMailboxes (Mailstore (config s)) path = Inr (map root ts)"
    and "\<forall>t\<in>set ts. stores (Mailstore (config s)) path t \<and> height t \<le> fuel"
  shows "\<exists>qs. listMailboxes (Suc fuel) E s path mboxRe True =
           Some (qs, Returned (Inr (concat (map preorder
             (filter (\<lambda>t. kept E mboxRe (root t)) ts)))))"
  using assms
proof (induction fuel arbitrary: path ts mboxRe)
  case 0
  have "ts = []"
  proof (cases ts)
    case (Cons t ts')
    with 0 have "height t \<le> 0" by simp
    then show ?thesis by (cases t) simp
  qed simp
  with 0 show ?case by simp
next
  case (Suc fuel)
  have sub: "\<forall>t\<in>set ts. kept E mboxRe (root t) \<longrightarrow>
          (\<exists>qs. listMailboxes (Suc fuel) E s (nextPath path (Name (root t))) None True =
             Some (qs, Returned (Inr (concat (map preorder (children t))))))"
  proof (intro ballI impI)
    fix t assume t: "t \<in> set ts"
    obtain m cs where tm: "t = MNode m cs" by (cases t)
    from Suc.prems(3) t tm have
      st: "GetMailboxes (Mailstore (config s)) (nextPath path (Name m)) = Inr (map root cs)"
      and ch: "\<forall>c\<in>set cs. stores (Mailstore (config s)) (nextPath path (Name m)) c"
      and h: "foldr max (map height cs) 0 \<le> fuel"
      by auto
    from h have "\<forall>c\<in>set cs. height c \<le> fuel"
      using height_member by (meson order_trans)
    with ch have "\<forall>c\<in>set cs. stores (Mailstore (config s)) (nextPath path (Name m)) c \<and> height c \<le> fuel"
      by simp
    from Suc.IH [OF nextPath_nonempty [OF Suc.prems(1)] st this, of None]
    show "\<exists>qs. listMailboxes (Suc fuel) E s (nextPath path (Name (root t))) None True =
             Some (qs, Returned (Inr (concat (map preorder (children t)))))"
      by (simp add: tm filter_kept_None)
  qed
  from loop_rec [OF Suc.prems(1) sub, of "[]"] obtain qs where
    "listMailboxes_loop (Suc fuel) E s path mboxRe True (map root ts) [] =
       Some (qs, Returned (Inr (concat (map preorder (filter (\<lambda>t. kept E mboxRe (root t)) ts)))))"
    by auto
  with Suc.prems(2) show ?case by simp
qed

section \<open>strings.LastIndex\<close>

lemma strings_LastIndex_bounds:
  "- 1 \<le> strings_LastIndex s c \<and> strings_LastIndex s c < int (length s)"
  by (induction s) (auto simp: Let_def)

lemma strings_LastIndex_nth:
  "0 \<le> strings_LastIndex s c \<Longrightarrow> s ! nat (strings_LastIndex s c) = c"
proof (induction s)
  case Nil
  then show ?case by simp
next
  case (Cons x xs)
  show ?case
  proof (cases "0 \<le> strings_LastIndex xs c")
    case True
    with Cons.IH have "xs ! nat (strings_LastIndex xs c) = c" by simp
    with True show ?thesis by (simp add: Let_def nat_add_distrib)
  next
    case False
    with Cons.prems show ?thesis by (simp add: Let_def split: if_splits)
  qed
qed

lemma strings_LastIndex_before_last:
  assumes "s \<noteq> []" and "last s \<noteq> c"
  shows "strings_LastIndex s c \<le> int (length s) - 2"
proof (cases "0 \<le> strings_LastIndex s c")
  case True
  have "strings_LastIndex s c \<noteq> int (length s) - 1"
  proof
    assume e: "strings_LastIndex s c = int (length s) - 1"
    with strings_LastIndex_nth [OF True] have "s ! (length s - 1) = c"
      by (simp add: nat_diff_distrib')
    with assms show False by (simp add: last_conv_nth)
  qed
  with strings_LastIndex_bounds [of s c] show ?thesis by linarith
next
  case False
  with assms(1) show ?thesis by (cases s) auto
qed

section \<open>The plan of session.list\<close>

lemma list_plan_literal:
  assumes "mboxPattern \<noteq> []" and "last mboxPattern \<noteq> CHR ''*''" and "last mboxPattern \<noteq> CHR ''%''"
  shows "list_plan reference mboxPattern = Returned (reference @ mboxPattern, None, False)"
  using assms by (simp add: list_plan_def go_index_last)

lemma list_plan_wildcard:
  assumes "mboxPattern \<noteq> []" and "last mboxPattern = CHR ''*'' \<or> last mboxPattern = CHR ''%''"
  shows "list_plan reference mboxPattern =
     Returned
       (reference @
          (if 0 < strings_LastIndex mboxPattern pathDelimiter
           then take (nat (strings_LastIndex mboxPattern pathDelimiter)) mboxPattern else []),
        Some
          (if length mboxPattern = 1 then ''.*''
           else if 0 < strings_LastIndex mboxPattern pathDelimiter
           then take (nat (int (length mboxPattern) - 2
                        - strings_LastIndex mboxPattern pathDelimiter))
                  (drop (nat (strings_LastIndex mboxPattern pathDelimiter)) mboxPattern) @ ''.*''
           else take (length mboxPattern - 2) mboxPattern @ ''.*''),
        last mboxPattern = CHR ''*'')"
proof -
  let ?ld = "strings_LastIndex mboxPattern pathDelimiter"
  from assms(2) have nd: "last mboxPattern \<noteq> pathDelimiter"
    by (auto simp: pathDelimiter_def)
  have b1: "?ld < int (length mboxPattern)"
    using strings_LastIndex_bounds [of mboxPattern pathDelimiter] by simp
  have b2: "?ld \<le> int (length mboxPattern) - 2"
    by (rule strings_LastIndex_before_last [OF assms(1) nd])
  have s1: "0 < ?ld \<Longrightarrow>
      go_slice mboxPattern 0 ?ld = Returned (take (nat ?ld) mboxPattern)"
    using b1 by (simp add: go_slice_def)
  have s2: "0 < ?ld \<Longrightarrow>
      go_slice mboxPattern ?ld (int (length mboxPattern) - 2) =
        Returned (take (nat (int (length mboxPattern) - 2 - ?ld)) (drop (nat ?ld) mboxPattern))"
    using b2 by (simp add: go_slice_def)
  have s3: "length mboxPattern \<noteq> 1 \<Longrightarrow>
      go_slice mboxPattern 0 (int (length mboxPattern) - 2) =
        Returned (take (length mboxPattern - 2) mboxPattern)"
    using assms(1) by (cases mboxPattern) (auto simp: go_slice_def nat_diff_distrib')
  show ?thesis
    using assms by (auto simp: list_plan_def go_index_last Let_def s1 s2 s3)
qed

section \<open>Runs stop at the first storage error\<close>






lemma stops_at_error_panic:
  "stops_at_error ms qs (Returned (Inr v)) \<Longrightarrow> stops_at_error ms qs r'"
  by (auto simp: stops_at_error_def)


section \<open>Rendering and delimiter facts\<close>

lemma itoa_small:
  "itoa 1 = ''1''" "itoa 3 = ''3''" "itoa 7 = ''7''" "itoa 12 = ''12''" "itoa 40 = ''40''"
  "itoa 47 = ''47''"
  by (simp_all add: itoa_def decimal.simps)

lemma sprintf_s_rune_pathDelimiter: "sprintf_s_rune pathDelimiter = ''%!s(int32=47)''"
  by (simp add: sprintf_s_rune_def pathDelimiter_def itoa_small)

lemma addTrailingDelimiter_empty: "addTrailingDelimiter [] = Panicked"
  by (simp add: addTrailingDelimiter_def go_index_def)

lemma addTrailingDelimiter_nonempty:
  "s \<noteq> [] \<Longrightarrow>
     addTrailingDelimiter s = Returned (if last s = pathDelimiter then s else s @ [pathDelimiter])"
  by (simp add: addTrailingDelimiter_def go_index_last)

section \<open>SELECT\<close>

lemma session_selectMailbox_found:
  "GetMailbox (Mailstore (config sess)) name = Inr (Some mb) \<Longrightarrow>
     session_selectMailbox sess name = ([QGetMailbox name], sess\<lparr>mailbox := Some mb\<rparr>, Inr True)"
  by (simp add: session_selectMailbox_def)

lemma addMailboxInfo_ok:
  assumes "mailbox s = Some mb"
    and "FirstUnseen (Mailstore (config s)) (Id_Mailbox mb) = Inr firstUnseen"
    and "TotalMessages (Mailstore (config s)) (Id_Mailbox mb) = Inr totalMessages"
    and "RecentMessages (Mailstore (config s)) (Id_Mailbox mb) = Inr recentMessages"
    and "NextUid (Mailstore (config s)) (Id_Mailbox mb) = Inr nextUid"
  shows "addMailboxInfo s resp =
     ([QFirstUnseen (Id_Mailbox mb), QTotalMessages (Id_Mailbox mb), QRecentMessages (Id_Mailbox mb), QNextUid (Id_Mailbox mb)],
      Returned (Inr (resp\<lparr>untagged := untagged resp @
        [itoa totalMessages @ '' EXISTS'',
         itoa recentMessages @ '' RECENT'',
         ''OK [UNSEEN '' @ itoa firstUnseen @ ''] Message '' @ itoa firstUnseen
            @ '' is first unseen'',
         ''OK [UIDVALIDITY '' @ itoa (Id_Mailbox mb) @ ''] UIDs valid'',
         ''OK [UIDNEXT '' @ itoa nextUid @ ''] Predicted next UID'']\<rparr>)))"
  using assms by (simp add: addMailboxInfo_def extra_def Let_def)

text \<open>
  Claim C1, as the code has it. SELECT in a session that is not authenticated returns BAD
  and asks the Mailstore nothing. In an authenticated session, a mailbox the Mailstore
  reports absent gives NO. A mailbox that exists, with the four counters answered, is
  recorded as the session's mailbox; the counters are queried in the order first unseen,
  total, recent, next UID; and the response is OK with exactly five untagged lines, in
  the order \<^verbatim>\<open>EXISTS\<close> (total), \<^verbatim>\<open>RECENT\<close>, \<^verbatim>\<open>UNSEEN\<close> (first unseen), \<^verbatim>\<open>UIDVALIDITY\<close> (the mailbox
  id) and \<^verbatim>\<open>UIDNEXT\<close>.
\<close>

theorem selectMailbox_execute_cases:
  "(st sess \<noteq> authenticated \<longrightarrow>
      selectMailbox_execute sess t name =
        ([], Returned (sess, bad t ''SELECT not authenticated'')))
   \<and> (st sess = authenticated \<and> GetMailbox (Mailstore (config sess)) name = Inr None \<longrightarrow>
      selectMailbox_execute sess t name =
        ([QGetMailbox name], Returned (sess, no t ''SELECT No such mailbox'')))
   \<and> (st sess = authenticated \<and> GetMailbox (Mailstore (config sess)) name = Inr (Some mb)
       \<and> FirstUnseen (Mailstore (config sess)) (Id_Mailbox mb) = Inr firstUnseen
       \<and> TotalMessages (Mailstore (config sess)) (Id_Mailbox mb) = Inr totalMessages
       \<and> RecentMessages (Mailstore (config sess)) (Id_Mailbox mb) = Inr recentMessages
       \<and> NextUid (Mailstore (config sess)) (Id_Mailbox mb) = Inr nextUid \<longrightarrow>
      selectMailbox_execute sess t name =
        ([QGetMailbox name, QFirstUnseen (Id_Mailbox mb), QTotalMessages (Id_Mailbox mb),
          QRecentMessages (Id_Mailbox mb), QNextUid (Id_Mailbox mb)],
         Returned (sess\<lparr>mailbox := Some mb\<rparr>,
           \<lparr>tag = t, status = OK, message = ''SELECT completed'',
            untagged =
              [itoa totalMessages @ '' EXISTS'',
               itoa recentMessages @ '' RECENT'',
               ''OK [UNSEEN '' @ itoa firstUnseen @ ''] Message '' @ itoa firstUnseen
                  @ '' is first unseen'',
               ''OK [UIDVALIDITY '' @ itoa (Id_Mailbox mb) @ ''] UIDs valid'',
               ''OK [UIDNEXT '' @ itoa nextUid @ ''] Predicted next UID''],
            closeConnection = False\<rparr>)))"
proof (intro conjI impI)
  assume "st sess \<noteq> authenticated"
  then show "selectMailbox_execute sess t name =
      ([], Returned (sess, bad t ''SELECT not authenticated''))"
    by (simp add: selectMailbox_execute_def mustAuthenticate_def)
next
  assume "st sess = authenticated \<and> GetMailbox (Mailstore (config sess)) name = Inr None"
  then show "selectMailbox_execute sess t name =
      ([QGetMailbox name], Returned (sess, no t ''SELECT No such mailbox''))"
    by (simp add: selectMailbox_execute_def session_selectMailbox_def)
next
  assume a: "st sess = authenticated \<and> GetMailbox (Mailstore (config sess)) name = Inr (Some mb)
       \<and> FirstUnseen (Mailstore (config sess)) (Id_Mailbox mb) = Inr firstUnseen
       \<and> TotalMessages (Mailstore (config sess)) (Id_Mailbox mb) = Inr totalMessages
       \<and> RecentMessages (Mailstore (config sess)) (Id_Mailbox mb) = Inr recentMessages
       \<and> NextUid (Mailstore (config sess)) (Id_Mailbox mb) = Inr nextUid"
  then have sel: "session_selectMailbox sess name =
      ([QGetMailbox name], sess\<lparr>mailbox := Some mb\<rparr>, Inr True)"
    by (simp add: session_selectMailbox_found)
  from a have info: "addMailboxInfo (sess\<lparr>mailbox := Some mb\<rparr>) (ok t ''SELECT completed'') =
     ([QFirstUnseen (Id_Mailbox mb), QTotalMessages (Id_Mailbox mb), QRecentMessages (Id_Mailbox mb), QNextUid (Id_Mailbox mb)],
      Returned (Inr ((ok t ''SELECT completed'')\<lparr>untagged := untagged (ok t ''SELECT completed'') @
        [itoa totalMessages @ '' EXISTS'',
         itoa recentMessages @ '' RECENT'',
         ''OK [UNSEEN '' @ itoa firstUnseen @ ''] Message '' @ itoa firstUnseen
            @ '' is first unseen'',
         ''OK [UIDVALIDITY '' @ itoa (Id_Mailbox mb) @ ''] UIDs valid'',
         ''OK [UIDNEXT '' @ itoa nextUid @ ''] Predicted next UID'']\<rparr>)))"
    by (intro addMailboxInfo_ok) simp_all
  from a show "selectMailbox_execute sess t name =
        ([QGetMailbox name, QFirstUnseen (Id_Mailbox mb), QTotalMessages (Id_Mailbox mb),
          QRecentMessages (Id_Mailbox mb), QNextUid (Id_Mailbox mb)],
         Returned (sess\<lparr>mailbox := Some mb\<rparr>,
           \<lparr>tag = t, status = OK, message = ''SELECT completed'',
            untagged =
              [itoa totalMessages @ '' EXISTS'',
               itoa recentMessages @ '' RECENT'',
               ''OK [UNSEEN '' @ itoa firstUnseen @ ''] Message '' @ itoa firstUnseen
                  @ '' is first unseen'',
               ''OK [UIDVALIDITY '' @ itoa (Id_Mailbox mb) @ ''] UIDs valid'',
               ''OK [UIDNEXT '' @ itoa nextUid @ ''] Predicted next UID''],
            closeConnection = False\<rparr>))"
    by (simp add: selectMailbox_execute_def sel info) (simp add: ok_def)
qed

lemma demo_simps:
  "st demo_authenticated = authenticated"
  "st demo_session = notAuthenticated"
  "Mailstore (config demo_authenticated) = demo_store"
  "Mailstore (config demo_session) = demo_store"
  "st faulty_authenticated = authenticated"
  "Mailstore (config faulty_authenticated) = faulty_store"
  by (simp_all add: demo_authenticated_def demo_session_def faulty_authenticated_def
      createSession_def)

text \<open>
  The three cases of C1 on the concrete store: a session that has not logged in, the
  absent mailbox \<^verbatim>\<open>Drafts\<close>, and \<^verbatim>\<open>INBOX\<close>.
\<close>

theorem selectMailbox_execute_cases_witness:
  "selectMailbox_execute demo_session ''a1'' ''INBOX'' =
     ([], Returned (demo_session, bad ''a1'' ''SELECT not authenticated''))
   \<and> selectMailbox_execute demo_authenticated ''a2'' ''Drafts'' =
     ([QGetMailbox ''Drafts''], Returned (demo_authenticated, no ''a2'' ''SELECT No such mailbox''))
   \<and> selectMailbox_execute demo_authenticated ''a3'' ''INBOX'' =
     ([QGetMailbox ''INBOX'', QFirstUnseen 1, QTotalMessages 1, QRecentMessages 1, QNextUid 1],
      Returned (demo_authenticated\<lparr>mailbox := Some demo_inbox\<rparr>,
        \<lparr>tag = ''a3'', status = OK, message = ''SELECT completed'',
         untagged =
           [''12 EXISTS'', ''3 RECENT'', ''OK [UNSEEN 7] Message 7 is first unseen'',
            ''OK [UIDVALIDITY 1] UIDs valid'', ''OK [UIDNEXT 40] Predicted next UID''],
         closeConnection = False\<rparr>))"
proof -
  have h1: "st demo_session \<noteq> authenticated"
    by (simp add: demo_simps)
  have h2: "st demo_authenticated = authenticated
      \<and> GetMailbox (Mailstore (config demo_authenticated)) ''Drafts'' = Inr None"
    by (simp add: demo_simps demo_store_def)
  have h3: "st demo_authenticated = authenticated
      \<and> GetMailbox (Mailstore (config demo_authenticated)) ''INBOX'' = Inr (Some demo_inbox)
      \<and> FirstUnseen (Mailstore (config demo_authenticated)) (Id_Mailbox demo_inbox) = Inr 7
      \<and> TotalMessages (Mailstore (config demo_authenticated)) (Id_Mailbox demo_inbox) = Inr 12
      \<and> RecentMessages (Mailstore (config demo_authenticated)) (Id_Mailbox demo_inbox) = Inr 3
      \<and> NextUid (Mailstore (config demo_authenticated)) (Id_Mailbox demo_inbox) = Inr 40"
    by (simp add: demo_simps demo_store_def)
  have i: "Id_Mailbox demo_inbox = 1"
    by (simp add: demo_inbox_def)
  from h1 selectMailbox_execute_cases [of demo_session "''a1''" "''INBOX''"]
  have c1: "selectMailbox_execute demo_session ''a1'' ''INBOX'' =
     ([], Returned (demo_session, bad ''a1'' ''SELECT not authenticated''))"
    by blast
  from h2 selectMailbox_execute_cases [of demo_authenticated "''a2''" "''Drafts''"]
  have c2: "selectMailbox_execute demo_authenticated ''a2'' ''Drafts'' =
     ([QGetMailbox ''Drafts''], Returned (demo_authenticated, no ''a2'' ''SELECT No such mailbox''))"
    by blast
  from h3 selectMailbox_execute_cases
    [of demo_authenticated "''a3''" "''INBOX''" demo_inbox 7 12 3 40]
  have c3: "selectMailbox_execute demo_authenticated ''a3'' ''INBOX'' =
        ([QGetMailbox ''INBOX'', QFirstUnseen (Id_Mailbox demo_inbox), QTotalMessages (Id_Mailbox demo_inbox),
          QRecentMessages (Id_Mailbox demo_inbox), QNextUid (Id_Mailbox demo_inbox)],
         Returned (demo_authenticated\<lparr>mailbox := Some demo_inbox\<rparr>,
           \<lparr>tag = ''a3'', status = OK, message = ''SELECT completed'',
            untagged =
              [itoa 12 @ '' EXISTS'',
               itoa 3 @ '' RECENT'',
               ''OK [UNSEEN '' @ itoa 7 @ ''] Message '' @ itoa 7
                  @ '' is first unseen'',
               ''OK [UIDVALIDITY '' @ itoa (Id_Mailbox demo_inbox) @ ''] UIDs valid'',
               ''OK [UIDNEXT '' @ itoa 40 @ ''] Predicted next UID''],
            closeConnection = False\<rparr>))"
    by blast
  show ?thesis
    using c1 c2 c3 by (simp add: i itoa_small)
qed

text \<open>
  Claim C1 as stated fails twice. Selecting \<^verbatim>\<open>INBOX\<close> (first unseen 7, total 12, recent 3,
  next UID 40) puts the total first and the first-unseen line third: the lines do not
  follow the order first unseen, total, recent, next UID. And on the faulty store the
  mailbox \<^verbatim>\<open>Work\<close> exists, yet SELECT returns NO with the close flag, because a counter
  query failed.
\<close>

theorem selectMailbox_line_order_counterexample:
  "selectMailbox_execute demo_authenticated ''a3'' ''INBOX'' =
     ([QGetMailbox ''INBOX'', QFirstUnseen 1, QTotalMessages 1, QRecentMessages 1, QNextUid 1],
      Returned (demo_authenticated\<lparr>mailbox := Some demo_inbox\<rparr>,
        \<lparr>tag = ''a3'', status = OK, message = ''SELECT completed'',
         untagged =
           [''12 EXISTS'', ''3 RECENT'', ''OK [UNSEEN 7] Message 7 is first unseen'',
            ''OK [UIDVALIDITY 1] UIDs valid'', ''OK [UIDNEXT 40] Predicted next UID''],
         closeConnection = False\<rparr>))
   \<and> GetMailbox (Mailstore (config faulty_authenticated)) ''Work'' = Inr (Some demo_work)
   \<and> selectMailbox_execute faulty_authenticated ''a4'' ''Work'' =
     ([QGetMailbox ''Work'', QFirstUnseen 2, QTotalMessages 2],
      Returned (faulty_authenticated\<lparr>mailbox := Some demo_work\<rparr>,
        \<lparr>tag = ''a4'', status = NO, message = ''SELECT disk failure'',
         untagged = [], closeConnection = True\<rparr>))"
  by (simp add: selectMailbox_execute_def session_selectMailbox_def addMailboxInfo_def Let_def
      demo_simps demo_store_def faulty_store_def demo_inbox_def demo_work_def itoa_small
      internalError_def ok_def no_def extra_def shouldClose_def)

section \<open>LIST with a literal pattern\<close>

lemma last_not_wildcard:
  "p \<noteq> [] \<Longrightarrow> c \<notin> set p \<Longrightarrow> last p \<noteq> c"
  using last_in_set by metis

text \<open>
  Claim C6, as the code has it. For a non-empty pattern without wildcard characters the
  plan has the path reference+pattern, no filter expression and no recursion; with any
  positive fuel \<^verbatim>\<open>session.list\<close> issues exactly one query, at that path, and returns the
  Mailstore's answer to it unchanged: the error, or every mailbox of the answer in order.
\<close>

theorem list_literal_pattern:
  assumes "mboxPattern \<noteq> []"
    and "CHR ''*'' \<notin> set mboxPattern" and "CHR ''%'' \<notin> set mboxPattern"
  shows "list_plan reference mboxPattern = Returned (reference @ mboxPattern, None, False)
    \<and> session_list (Suc fuel) E s reference mboxPattern =
        Some ([QGetMailboxes (reference @ mboxPattern)],
              Returned (GetMailboxes (Mailstore (config s)) (reference @ mboxPattern)))"
proof -
  from assms have l: "last mboxPattern \<noteq> CHR ''*''" "last mboxPattern \<noteq> CHR ''%''"
    by (simp_all add: last_not_wildcard)
  have p: "list_plan reference mboxPattern = Returned (reference @ mboxPattern, None, False)"
    by (rule list_plan_literal [OF assms(1) l])
  have "map_sum id (filter (kept E None)) (GetMailboxes (Mailstore (config s)) (reference @ mboxPattern))
      = GetMailboxes (Mailstore (config s)) (reference @ mboxPattern)"
    by (cases "GetMailboxes (Mailstore (config s)) (reference @ mboxPattern)")
       (simp_all add: kept_def)
  with p show ?thesis
    by (simp add: session_list_def listMailboxes_flat del: listMailboxes.simps)
qed

text \<open>
  C6 on the concrete store: the pattern \<^verbatim>\<open>Work\<close> at the reference \<^verbatim>\<open>/\<close>.
\<close>

theorem list_literal_pattern_witness:
  "list_plan ''/'' ''Work'' = Returned (''/Work'', None, False)
   \<and> session_list (Suc 0) demo_env demo_authenticated ''/'' ''Work'' =
        Some ([QGetMailboxes ''/Work''], Returned (Inr [demo_bills, demo_travel]))"
proof -
  have h: "''Work'' \<noteq> []" "CHR ''*'' \<notin> set ''Work''" "CHR ''%'' \<notin> set ''Work''"
    by simp_all
  have "GetMailboxes (Mailstore (config demo_authenticated)) (''/'' @ ''Work'') =
      Inr [demo_bills, demo_travel]"
    by (simp add: demo_simps demo_store_def)
  with list_literal_pattern [OF h, of "''/''" 0 demo_env demo_authenticated]
  show ?thesis by simp
qed

text \<open>
  Claim C6 as stated fails on the size of the result. The pattern \<^verbatim>\<open>Work\<close> has no wildcard,
  and the result has two entries, the children of \<^verbatim>\<open>/Work\<close>; neither is the mailbox
  \<^verbatim>\<open>/Work\<close> itself.
\<close>

theorem list_literal_returns_children:
  "CHR ''*'' \<notin> set ''Work'' \<and> CHR ''%'' \<notin> set ''Work''
   \<and> session_list (Suc 0) demo_env demo_authenticated ''/'' ''Work'' =
        Some ([QGetMailboxes ''/Work''], Returned (Inr [demo_bills, demo_travel]))
   \<and> length [demo_bills, demo_travel] = 2
   \<and> Path demo_bills \<noteq> ''/Work'' \<and> Path demo_travel \<noteq> ''/Work''"
  by (simp add: session_list_def list_plan_def go_index_def loop_Cons
      demo_simps demo_store_def demo_bills_def demo_travel_def)

section \<open>LIST with a trailing wildcard\<close>

text \<open>
  Claim C5 at the pattern \<^verbatim>\<open>W%\<close>, reference \<^verbatim>\<open>/\<close>. The slice that builds the expression ends
  at \<^verbatim>\<open>lastIndex-1\<close>, exclusive, so it drops the character before the wildcard: the
  expression is \<^verbatim>\<open>.*\<close>, not \<^verbatim>\<open>W.*\<close>, and \<^verbatim>\<open>INBOX\<close> is kept although it does not begin
  with \<^verbatim>\<open>W\<close>.
\<close>

theorem list_wildcard_prefix_lost:
  "list_plan ''/'' ''W%'' = Returned (''/'', Some ''.*'', False)
   \<and> session_list (Suc 0) demo_env demo_authenticated ''/'' ''W%'' =
        Some ([QGetMailboxes ''/''], Returned (Inr [demo_inbox, demo_work]))
   \<and> take 1 (Name demo_inbox) \<noteq> ''W''"
proof -
  have p: "list_plan ''/'' ''W%'' = Returned (''/'', Some ''.*'', False)"
    by (simp add: list_plan_def go_index_def go_slice_def pathDelimiter_def)
  have c: "regexp_Compile demo_env ''.*'' = Inr []"
    by (simp add: demo_env_def literal_Compile_def)
  have k: "kept demo_env (Some []) demo_inbox" "kept demo_env (Some []) demo_work"
    by (simp_all add: kept_def demo_env_def demo_inbox_def demo_work_def)
  have g: "GetMailboxes (Mailstore (config demo_authenticated)) ''/'' = Inr [demo_inbox, demo_work]"
    by (simp add: demo_simps demo_store_def)
  have "session_list (Suc 0) demo_env demo_authenticated ''/'' ''W%'' =
        Some ([QGetMailboxes ''/''], Returned (Inr [demo_inbox, demo_work]))"
    by (simp add: session_list_def p c listMailboxes_flat g k del: listMailboxes.simps)
  with p show ?thesis
    by (simp add: demo_inbox_def)
qed

section \<open>Recursive listing\<close>

lemma last_leaf_pattern:
  assumes "p \<noteq> []"
  shows "(leaf_pattern p \<noteq> [] \<and> last (leaf_pattern p) = CHR ''*'') = (last p = CHR ''*'')"
proof -
  from assms obtain x xs where r: "rev p = x # xs"
    by (cases "rev p") auto
  then have lp: "last p = x"
    by (metis last_rev list.sel(1) rev_rev_ident)
  show ?thesis
  proof (cases "x = pathDelimiter")
    case True
    with r have "leaf_pattern p = []"
      by (simp add: leaf_pattern_def)
    with True lp show ?thesis
      by (simp add: pathDelimiter_def)
  next
    case False
    with r have "takeWhile (\<lambda>c. c \<noteq> pathDelimiter) (rev p) =
        x # takeWhile (\<lambda>c. c \<noteq> pathDelimiter) xs"
      by simp
    then have "leaf_pattern p \<noteq> [] \<and> last (leaf_pattern p) = x"
      by (simp add: leaf_pattern_def)
    with lp show ?thesis by simp
  qed
qed

lemma list_plan_flag:
  assumes "mboxPattern \<noteq> []"
  shows "\<exists>path expr. list_plan reference mboxPattern =
           Returned (path, expr, last mboxPattern = CHR ''*'')"
proof (cases "last mboxPattern = CHR ''*'' \<or> last mboxPattern = CHR ''%''")
  case True
  from list_plan_wildcard [OF assms True] show ?thesis by blast
next
  case False
  with list_plan_literal [OF assms, of reference] show ?thesis by auto
qed

text \<open>
  Beyond the claims: recursion on a non-empty pattern. The plan of \<^verbatim>\<open>session.list\<close> returns,
  and its recursion flag is true exactly when the leaf pattern is non-empty and ends in
  \<^verbatim>\<open>*\<close>; \<^verbatim>\<open>session.list\<close> passes the plan's path, compiled filter and flag to
  \<^verbatim>\<open>listMailboxes\<close>. With the flag set, on a non-empty path below which the Mailstore holds
  a finite hierarchy, fuel beyond the height of the hierarchy makes \<^verbatim>\<open>listMailboxes\<close>
  return: each kept child in the order of the Mailstore's answer, followed at once by the
  pre-order listing of everything below it (no filter there), with nothing removed or
  reordered.
\<close>

theorem list_recursive_preorder:
  "(mboxPattern \<noteq> [] \<longrightarrow>
      (\<exists>path expr. list_plan reference mboxPattern =
         Returned (path, expr,
           leaf_pattern mboxPattern \<noteq> [] \<and> last (leaf_pattern mboxPattern) = CHR ''*'')))
   \<and> (list_plan reference mboxPattern = Returned (path', Some expr', recursive)
       \<and> regexp_Compile E expr' = Inr re \<longrightarrow>
      session_list fuel' E s reference mboxPattern =
        listMailboxes fuel' E s path' (Some re) recursive)
   \<and> (path \<noteq> [] \<and> GetMailboxes (Mailstore (config s)) path = Inr (map root ts)
       \<and> (\<forall>t\<in>set ts. stores (Mailstore (config s)) path t \<and> height t \<le> fuel) \<longrightarrow>
      (\<exists>qs. listMailboxes (Suc fuel) E s path mboxRe True =
         Some (qs, Returned (Inr (concat (map preorder
           (filter (\<lambda>t. kept E mboxRe (root t)) ts)))))))"
proof (intro conjI impI)
  assume a: "mboxPattern \<noteq> []"
  from last_leaf_pattern [OF a] list_plan_flag [OF a, of reference]
  show "\<exists>path expr. list_plan reference mboxPattern =
         Returned (path, expr,
           leaf_pattern mboxPattern \<noteq> [] \<and> last (leaf_pattern mboxPattern) = CHR ''*'')"
    by simp
next
  assume "list_plan reference mboxPattern = Returned (path', Some expr', recursive)
       \<and> regexp_Compile E expr' = Inr re"
  then show "session_list fuel' E s reference mboxPattern =
        listMailboxes fuel' E s path' (Some re) recursive"
    by (simp add: session_list_def)
next
  assume "path \<noteq> [] \<and> GetMailboxes (Mailstore (config s)) path = Inr (map root ts)
       \<and> (\<forall>t\<in>set ts. stores (Mailstore (config s)) path t \<and> height t \<le> fuel)"
  then show "\<exists>qs. listMailboxes (Suc fuel) E s path mboxRe True =
         Some (qs, Returned (Inr (concat (map preorder
           (filter (\<lambda>t. kept E mboxRe (root t)) ts)))))"
    using listMailboxes_preorder by blast
qed

text \<open>
  On the concrete store: the pattern \<^verbatim>\<open>*\<close> at the reference \<^verbatim>\<open>/\<close> lists every mailbox, each
  parent before its children.
\<close>

theorem list_recursive_preorder_witness:
  "(\<exists>path expr. list_plan ''/'' ''*'' = Returned (path, expr, True))
   \<and> (\<exists>qs. session_list (Suc (Suc (Suc 0))) demo_env demo_authenticated ''/'' ''*'' =
         Some (qs, Returned (Inr [demo_inbox, demo_work, demo_bills, demo_travel])))"
proof -
  have l: "leaf_pattern ''*'' = ''*''"
    by (simp add: leaf_pattern_def pathDelimiter_def)
  have h1: "''*'' \<noteq> []"
    by simp
  have h2: "list_plan ''/'' ''*'' = Returned (''/'', Some ''.*'', True)
      \<and> regexp_Compile demo_env ''.*'' = Inr []"
    by (simp add: list_plan_def go_index_def demo_env_def literal_Compile_def)
  have np: "nextPath ''/'' ''INBOX'' = ''/INBOX''" "nextPath ''/'' ''Work'' = ''/Work''"
    "nextPath ''/Work'' ''bills'' = ''/Work/bills''"
    "nextPath ''/Work'' ''travel'' = ''/Work/travel''"
    by (simp_all add: nextPath_def pathDelimiter_def)
  have h3: "''/'' \<noteq> [] \<and> GetMailboxes (Mailstore (config demo_authenticated)) ''/'' =
        Inr (map root demo_forest)
      \<and> (\<forall>t\<in>set demo_forest.
            stores (Mailstore (config demo_authenticated)) ''/'' t \<and> height t \<le> Suc (Suc 0))"
    by (simp add: demo_simps demo_store_def demo_forest_def np
        demo_inbox_def demo_work_def demo_bills_def demo_travel_def)
  have f: "concat (map preorder (filter (\<lambda>t. kept demo_env (Some []) (root t)) demo_forest)) =
      [demo_inbox, demo_work, demo_bills, demo_travel]"
    by (simp add: demo_forest_def kept_def demo_env_def demo_inbox_def demo_work_def)
  note t = list_recursive_preorder
    [of "''*''" "''/''" "''/''" "''.*''" True demo_env "[]" "Suc (Suc (Suc 0))"
        demo_authenticated "''/''" demo_forest "Suc (Suc 0)" "Some []"]
  from t h1 have c1: "\<exists>path expr. list_plan ''/'' ''*'' = Returned (path, expr, True)"
    by (simp add: l)
  from t h2 have c2: "session_list (Suc (Suc (Suc 0))) demo_env demo_authenticated ''/'' ''*'' =
      listMailboxes (Suc (Suc (Suc 0))) demo_env demo_authenticated ''/'' (Some []) True"
    by blast
  from t h3 have c3: "\<exists>qs. listMailboxes (Suc (Suc (Suc 0))) demo_env demo_authenticated ''/''
        (Some []) True =
      Some (qs, Returned (Inr (concat (map preorder
        (filter (\<lambda>t. kept demo_env (Some []) (root t)) demo_forest)))))"
    by blast
  from c3 have "\<exists>qs. listMailboxes (Suc (Suc (Suc 0))) demo_env demo_authenticated ''/''
        (Some []) True =
      Some (qs, Returned (Inr [demo_inbox, demo_work, demo_bills, demo_travel]))"
    by (simp only: f)
  with c1 c2 show ?thesis
    by simp
qed

section \<open>Storage errors during LIST: the query log\<close>




section \<open>What SELECT changes in the session\<close>

lemma selectMailbox_execute_frame:
  assumes "selectMailbox_execute s t name = (qs, Returned (s', r))"
  shows "st s' = st s \<and> id_session s' = id_session s \<and> config s' = config s"
  using assms
  by (auto simp: selectMailbox_execute_def session_selectMailbox_def
      split: if_splits sum.splits option.splits prod.splits outcome.splits)

lemma list_execute_frame:
  assumes "list_execute fuel E s t reference mboxPattern = Some (qs, Returned (s', r))"
  shows "s' = s"
  using assms
  by (auto simp: list_execute_def
      split: if_splits sum.splits option.splits prod.splits outcome.splits)

lemma selectMailbox_execute_found:
  assumes "st sess = authenticated"
    and "GetMailbox (Mailstore (config sess)) name = Inr (Some mb)"
  shows "\<exists>qs r. selectMailbox_execute sess t name = (qs, Returned (sess\<lparr>mailbox := Some mb\<rparr>, r))"
proof -
  have "\<exists>qs' v. addMailboxInfo (sess\<lparr>mailbox := Some mb\<rparr>) (ok t ''SELECT completed'')
      = (qs', Returned v)"
    by (simp add: addMailboxInfo_def Let_def split: sum.splits)
  then obtain qs' v where
    "addMailboxInfo (sess\<lparr>mailbox := Some mb\<rparr>) (ok t ''SELECT completed'') = (qs', Returned v)"
    by blast
  with assms show ?thesis
    by (cases v) (simp_all add: selectMailbox_execute_def session_selectMailbox_def)
qed

text \<open>
  Claim C10. In an authenticated session, when the Mailstore finds the mailbox,
  \<^verbatim>\<open>session.selectMailbox\<close> and the SELECT command return with the session changed in its
  mailbox field only: the state is still authenticated, the id and the configuration are
  the same. And no command turns a state other than \<open>selected\<close> into \<open>selected\<close>, or
  changes the id or the configuration.
\<close>

theorem selectMailbox_changes_only_mailbox:
  "(st sess = authenticated \<and> GetMailbox (Mailstore (config sess)) name = Inr (Some mb) \<longrightarrow>
      session_selectMailbox sess name = ([QGetMailbox name], sess\<lparr>mailbox := Some mb\<rparr>, Inr True)
      \<and> (\<exists>qs r. selectMailbox_execute sess t name =
            (qs, Returned (sess\<lparr>mailbox := Some mb\<rparr>, r)))
      \<and> st (sess\<lparr>mailbox := Some mb\<rparr>) = authenticated
      \<and> id_session (sess\<lparr>mailbox := Some mb\<rparr>) = id_session sess
      \<and> config (sess\<lparr>mailbox := Some mb\<rparr>) = config sess)
   \<and> (execute fuel E s c = Some (qs', Returned (s', r')) \<and> st s \<noteq> selected \<longrightarrow>
      st s' \<noteq> selected \<and> id_session s' = id_session s \<and> config s' = config s)"
proof (intro conjI impI)
  assume a: "st sess = authenticated \<and> GetMailbox (Mailstore (config sess)) name = Inr (Some mb)"
  then show "session_selectMailbox sess name =
      ([QGetMailbox name], sess\<lparr>mailbox := Some mb\<rparr>, Inr True)"
    by (simp add: session_selectMailbox_def)
  from a show "\<exists>qs r. selectMailbox_execute sess t name =
      (qs, Returned (sess\<lparr>mailbox := Some mb\<rparr>, r))"
    by (simp add: selectMailbox_execute_found)
  from a show "st (sess\<lparr>mailbox := Some mb\<rparr>) = authenticated"
    by simp
  show "id_session (sess\<lparr>mailbox := Some mb\<rparr>) = id_session sess"
    by simp
  show "config (sess\<lparr>mailbox := Some mb\<rparr>) = config sess"
    by simp
next
  assume b: "execute fuel E s c = Some (qs', Returned (s', r')) \<and> st s \<noteq> selected"
  have "(st s' = st s \<or> st s' = authenticated \<or> st s' = notAuthenticated)
      \<and> id_session s' = id_session s \<and> config s' = config s"
  proof (cases c)
    case (SelectMailbox t name)
    with b selectMailbox_execute_frame [of s t name qs' s' r'] show ?thesis by simp
  next
    case (List_cmd t reference mboxPattern)
    with b list_execute_frame [of fuel E s t reference mboxPattern qs' s' r'] show ?thesis
      by simp
  qed (use b in \<open>auto simp: noop_execute_def capability_execute_def login_execute_def
        logout_execute_def unknown_execute_def split: if_splits\<close>)
  with b show "st s' \<noteq> selected" by auto
  from \<open>_ \<and> id_session s' = id_session s \<and> config s' = config s\<close>
  show "id_session s' = id_session s" by simp
  from \<open>_ \<and> id_session s' = id_session s \<and> config s' = config s\<close>
  show "config s' = config s" by simp
qed

section \<open>Storage errors during LIST: the run returns\<close>








section \<open>LIST aborts at the first storage error\<close>



section \<open>The pattern that strips to nothing\<close>

text \<open>
  Claim C7 at the pattern \<^verbatim>\<open>/\<close>. The command tests the pattern for emptiness before it
  strips the delimiters; \<^verbatim>\<open>/\<close> strips to the empty string, and \<^verbatim>\<open>session.list\<close> indexes the
  empty pattern at \<open>-1\<close>: it panics before it sets a recursion flag or asks the Mailstore
  anything.
\<close>

theorem list_stripped_empty_pattern_panics:
  "removeDelimiters ''/'' = Returned []
   \<and> list_plan reference [] = Panicked
   \<and> session_list fuel E s reference [] = Some ([], Panicked)
   \<and> list_execute fuel E demo_authenticated ''a1'' ''/'' ''/'' = Some ([], Panicked)"
proof -
  have r: "removeDelimiters ''/'' = Returned []"
    by (simp add: removeDelimiters_def go_index_def go_slice_def pathDelimiter_def)
  have a: "addTrailingDelimiter ''/'' = Returned ''/''"
    by (simp add: addTrailingDelimiter_def go_index_def pathDelimiter_def)
  have p: "\<And>ref. list_plan ref [] = Panicked"
    by (simp add: list_plan_def go_index_def)
  have s: "\<And>ref. session_list fuel E s ref [] = Some ([], Panicked)"
    "\<And>ref. session_list fuel E demo_authenticated ref [] = Some ([], Panicked)"
    by (simp_all add: session_list_def p)
  show ?thesis
    by (simp add: r a p s list_execute_def demo_simps)
qed

section \<open>SELECT on the concrete store\<close>

text \<open>
  C10 on the concrete store: SELECT of \<^verbatim>\<open>INBOX\<close>, and a LOGIN as the command of the second
  part.
\<close>

theorem selectMailbox_changes_only_mailbox_witness:
  "session_selectMailbox demo_authenticated ''INBOX'' =
     ([QGetMailbox ''INBOX''], demo_authenticated\<lparr>mailbox := Some demo_inbox\<rparr>, Inr True)
   \<and> (\<exists>qs r. selectMailbox_execute demo_authenticated ''a3'' ''INBOX'' =
         (qs, Returned (demo_authenticated\<lparr>mailbox := Some demo_inbox\<rparr>, r)))
   \<and> st (demo_authenticated\<lparr>mailbox := Some demo_inbox\<rparr>) = authenticated
   \<and> st (fst (login_execute demo_session ''a0'' ''test'' ''secret'')) \<noteq> selected
   \<and> id_session (fst (login_execute demo_session ''a0'' ''test'' ''secret'')) =
       id_session demo_session"
proof -
  have h1: "st demo_authenticated = authenticated
      \<and> GetMailbox (Mailstore (config demo_authenticated)) ''INBOX'' = Inr (Some demo_inbox)"
    by (simp add: demo_simps demo_store_def)
  have h2: "execute 0 demo_env demo_session (Login ''a0'' ''test'' ''secret'') =
        Some ([], Returned (fst (login_execute demo_session ''a0'' ''test'' ''secret''),
                            snd (login_execute demo_session ''a0'' ''test'' ''secret'')))
      \<and> st demo_session \<noteq> selected"
    by (simp add: demo_simps)
  from selectMailbox_changes_only_mailbox
    [of demo_authenticated "''INBOX''" demo_inbox "''a3''" 0 demo_env demo_session
        "Login ''a0'' ''test'' ''secret''" "[]"
        "fst (login_execute demo_session ''a0'' ''test'' ''secret'')"
        "snd (login_execute demo_session ''a0'' ''test'' ''secret'')"]
    h1 h2
  show ?thesis by blast
qed

section \<open>LOGIN\<close>

text \<open>
  Claim C2, as the code has it. In a session that is not authenticated LOGIN succeeds
  (state authenticated, OK) exactly when the user id is \<^verbatim>\<open>test\<close>, whatever the password,
  and returns NO with the session unchanged otherwise; in any other state it returns BAD
  and leaves the session unchanged.
\<close>

theorem login_execute_by_userId:
  "(st sess = notAuthenticated \<and> userId = ''test'' \<longrightarrow>
      login_execute sess t userId password =
        (sess\<lparr>st := authenticated\<rparr>, ok t ''LOGIN completed''))
   \<and> (st sess = notAuthenticated \<and> userId \<noteq> ''test'' \<longrightarrow>
      login_execute sess t userId password = (sess, no t ''LOGIN failure''))
   \<and> (st sess \<noteq> notAuthenticated \<longrightarrow>
      login_execute sess t userId password = (sess, bad t ''LOGIN already logged in''))"
  by (simp add: login_execute_def)

text \<open>
  The three cases of C2 on the concrete sessions.
\<close>

theorem login_execute_by_userId_witness:
  "login_execute demo_session ''a1'' ''test'' ''secret'' =
     (demo_session\<lparr>st := authenticated\<rparr>, ok ''a1'' ''LOGIN completed'')
   \<and> login_execute demo_session ''a1'' ''alice'' ''secret'' =
     (demo_session, no ''a1'' ''LOGIN failure'')
   \<and> login_execute demo_authenticated ''a2'' ''test'' ''secret'' =
     (demo_authenticated, bad ''a2'' ''LOGIN already logged in'')"
proof -
  have h1: "st demo_session = notAuthenticated \<and> ''test'' = ''test''"
    by (simp add: demo_simps)
  have h2: "st demo_session = notAuthenticated \<and> ''alice'' \<noteq> ''test''"
    by (simp add: demo_simps)
  have h3: "st demo_authenticated \<noteq> notAuthenticated"
    by (simp add: demo_simps)
  from login_execute_by_userId [of demo_session "''test''" "''a1''" "''secret''"] h1
  have c1: "login_execute demo_session ''a1'' ''test'' ''secret'' =
     (demo_session\<lparr>st := authenticated\<rparr>, ok ''a1'' ''LOGIN completed'')"
    by blast
  from login_execute_by_userId [of demo_session "''alice''" "''a1''" "''secret''"] h2
  have c2: "login_execute demo_session ''a1'' ''alice'' ''secret'' =
     (demo_session, no ''a1'' ''LOGIN failure'')"
    by blast
  from login_execute_by_userId [of demo_authenticated "''test''" "''a2''" "''secret''"] h3
  have c3: "login_execute demo_authenticated ''a2'' ''test'' ''secret'' =
     (demo_authenticated, bad ''a2'' ''LOGIN already logged in'')"
    by blast
  from c1 c2 c3 show ?thesis by blast
qed

text \<open>
  Claim C2 as stated fails: two different credential pairs both log in, so success is not
  tied to one pair.
\<close>

theorem login_accepts_two_passwords:
  "status (snd (login_execute demo_session ''a1'' ''test'' ''secret'')) = OK
   \<and> st (fst (login_execute demo_session ''a1'' ''test'' ''secret'')) = authenticated
   \<and> status (snd (login_execute demo_session ''a1'' ''test'' ''other'')) = OK
   \<and> st (fst (login_execute demo_session ''a1'' ''test'' ''other'')) = authenticated
   \<and> (''test'', ''secret'') \<noteq> (''test'', ''other'')"
  by (simp add: login_execute_def demo_simps ok_def)

section \<open>LIST with an empty pattern\<close>

lemma list_empty_pattern_shape:
  "st s = authenticated \<Longrightarrow>
   list_execute fuel E s t reference [] =
     Some ([], Returned (s,
       \<lparr>tag = t, status = OK, message = ''LIST completed'',
        untagged = [''LIST () '' @ [dquote] @ ''%!s(int32=47)'' @ [dquote] @ '' '' @ reference],
        closeConnection = False\<rparr>))"
  by (simp add: list_execute_def list_root_line_def sprintf_s_rune_pathDelimiter ok_def extra_def)

text \<open>
  Claim C3 at the reference \<^verbatim>\<open>INBOX\<close>. The response is OK with one untagged line and no
  Mailstore query, but the line does not contain the delimiter: the rune printed with
  \<^verbatim>\<open>%s\<close> comes out as \<^verbatim>\<open>%!s(int32=47)\<close>.
\<close>

theorem list_empty_pattern_line:
  "list_execute fuel E demo_authenticated ''a1'' ''INBOX'' [] =
     Some ([], Returned (demo_authenticated,
       \<lparr>tag = ''a1'', status = OK, message = ''LIST completed'',
        untagged = [''LIST () '' @ [CHR 0x22] @ ''%!s(int32=47)'' @ [CHR 0x22] @ '' INBOX''],
        closeConnection = False\<rparr>))
   \<and> pathDelimiter \<notin> set (''LIST () '' @ [CHR 0x22] @ ''%!s(int32=47)'' @ [CHR 0x22] @ '' INBOX'')"
proof -
  have "pathDelimiter \<notin> set (''LIST () '' @ [CHR 0x22] @ ''%!s(int32=47)'' @ [CHR 0x22] @ '' INBOX'')"
    by (simp add: pathDelimiter_def)
  moreover have "st demo_authenticated = authenticated"
    by (simp add: demo_simps)
  ultimately show ?thesis
    by (simp add: list_empty_pattern_shape dquote_def)
qed

section \<open>The empty reference\<close>

text \<open>
  Claim C4 at the reference \<^verbatim>\<open>""\<close> and the pattern \<^verbatim>\<open>%\<close>: \<^verbatim>\<open>addTrailingDelimiter\<close> indexes the
  empty string at \<open>-1\<close>, and the command panics before any query.
\<close>

theorem list_percent_empty_reference_panics:
  "addTrailingDelimiter [] = Panicked
   \<and> list_execute fuel E demo_authenticated ''a1'' [] ''%'' = Some ([], Panicked)"
  by (simp add: list_execute_def addTrailingDelimiter_empty demo_simps)

lemma addTrailingDelimiter_idem:
  assumes "addTrailingDelimiter s = Returned r"
  shows "addTrailingDelimiter r = Returned r"
proof -
  from assms have ne: "s \<noteq> []"
    by (auto simp: addTrailingDelimiter_empty)
  with assms have r: "r = (if last s = pathDelimiter then s else s @ [pathDelimiter])"
    by (simp add: addTrailingDelimiter_nonempty)
  with ne have "r \<noteq> []" and "last r = pathDelimiter"
    by auto
  then show ?thesis
    by (simp add: addTrailingDelimiter_nonempty)
qed

text \<open>
  Claim C9 at the empty string: \<^verbatim>\<open>addTrailingDelimiter\<close> panics there, applied once or
  twice, so it yields no string to compare. On every string where it returns it is
  idempotent (\<open>addTrailingDelimiter_idem\<close>).
\<close>

theorem addTrailingDelimiter_empty_string_panics:
  "addTrailingDelimiter [] = Panicked
   \<and> (case addTrailingDelimiter [] of Panicked \<Rightarrow> Panicked | Returned r \<Rightarrow> addTrailingDelimiter r)
       = Panicked"
  by (simp add: addTrailingDelimiter_def go_index_def)

section \<open>Further properties of the commands\<close>

text \<open>
  Beyond the claims: LOGOUT from any state resets the state to not authenticated, emits
  the \<^verbatim>\<open>BYE\<close> line and sets the close flag.
\<close>

theorem logout_execute_resets:
  "logout_execute sess t =
     (sess\<lparr>st := notAuthenticated\<rparr>,
      \<lparr>tag = t, status = OK, message = ''LOGOUT completed'',
       untagged = [''BYE IMAP4rev1 Server logging out''], closeConnection = True\<rparr>)"
  by (simp add: logout_execute_def ok_def extra_def shouldClose_def)

text \<open>
  Beyond the claims: stripping the delimiters of \<^verbatim>\<open>/\<close> yields the empty string, of \<^verbatim>\<open>/a/\<close>
  yields \<^verbatim>\<open>a\<close>, and \<^verbatim>\<open>a\<close> is unchanged.
\<close>

theorem removeDelimiters_examples:
  "removeDelimiters ''/'' = Returned []
   \<and> removeDelimiters ''/a/'' = Returned ''a''
   \<and> removeDelimiters ''a'' = Returned ''a''"
  by (simp add: removeDelimiters_def go_index_def go_slice_def pathDelimiter_def)

text \<open>
  Beyond the claims: the pattern \<^verbatim>\<open>%\<close> issues one query, at the reference, and returns the
  kept mailboxes of its answer (or its error), without descending.
\<close>

theorem list_percent_single_level:
  assumes "regexp_Compile E ''.*'' = Inr re"
  shows "session_list (Suc fuel) E s reference ''%'' =
     Some ([QGetMailboxes reference],
           Returned (map_sum id (filter (kept E (Some re)))
             (GetMailboxes (Mailstore (config s)) reference)))"
proof -
  have "list_plan reference ''%'' = Returned (reference, Some ''.*'', False)"
    by (simp add: list_plan_def go_index_def)
  with assms show ?thesis
    by (simp add: session_list_def listMailboxes_flat del: listMailboxes.simps)
qed

text \<open>
  The pattern \<^verbatim>\<open>%\<close> at the reference \<^verbatim>\<open>/\<close> of the concrete store.
\<close>

theorem list_percent_single_level_witness:
  "session_list (Suc 0) demo_env demo_authenticated ''/'' ''%'' =
     Some ([QGetMailboxes ''/''], Returned (Inr [demo_inbox, demo_work]))"
proof -
  have h: "regexp_Compile demo_env ''.*'' = Inr []"
    by (simp add: demo_env_def literal_Compile_def)
  have "map_sum id (filter (kept demo_env (Some [])))
      (GetMailboxes (Mailstore (config demo_authenticated)) ''/'') = Inr [demo_inbox, demo_work]"
    by (simp add: demo_simps demo_store_def kept_def demo_env_def demo_inbox_def demo_work_def)
  with list_percent_single_level [OF h, of 0 demo_authenticated "''/''"]
  show ?thesis by simp
qed

end
